theory Spec2Isabelle
  imports Complex_Main "HOL-Library.Char_ord" "HOL-Library.List_Lexorder"
begin

section \<open>Sessions, captures and the session store\<close>

text \<open>
  The tool keeps a session as a dictionary with the keys id, name, description,
  start_time, end_time, duration and captures; a capture is a dictionary with the keys
  id, time, description and image_path. A session built by the tool itself always has
  every key, so it is a record here.

  Text is a list of bytes; the few non-ASCII characters the tool writes itself are spelled
  as their UTF-8 bytes.
\<close>

record capture =
  capture_id :: int
  capture_time :: string
  capture_description :: string
  image_path :: string

record session =
  session_id :: string
  session_name :: string
  session_description :: string
  start_time :: string
  end_time :: string
  duration :: int
  captures :: "capture list"

text \<open>
  A record file read back from disk is any JSON text. \<open>json.load\<close> either raises
  (\<open>Corrupt\<close>: the text is not JSON, or the file cannot be opened or decoded) or gives
  a dictionary in which any key may be missing. The fields that are present are taken at
  the types \<open>save_session\<close> writes them with.
\<close>

record session_dict =
  j_id :: "string option"
  j_name :: "string option"
  j_description :: "string option"
  j_start_time :: "string option"
  j_end_time :: "string option"
  j_duration :: "int option"
  j_captures :: "capture list option"

datatype record_file = Corrupt | Parsed session_dict

definition dump :: "session \<Rightarrow> session_dict" where
  "dump s =
     \<lparr>j_id = Some (session_id s), j_name = Some (session_name s),
      j_description = Some (session_description s),
      j_start_time = Some (start_time s), j_end_time = Some (end_time s),
      j_duration = Some (duration s), j_captures = Some (captures s)\<rparr>"

text \<open>Message boxes and windows the tool opens, in the order they appear.\<close>

datatype notice =
    Save_error
  | Load_error
  | Delete_image_error
  | Hotkey_cleanup_warning
  | No_captures_info
  | Editor_opened

text \<open>
  The state of the tool and of the disk it works on. \<open>record_files\<close> is the sessions
  directory in the order \<open>os.listdir\<close> returns it; \<open>image_files\<close> maps the path of
  every existing image file to its content; \<open>locked_files\<close> are the paths on which
  \<open>os.remove\<close> raises; \<open>store_writable\<close> tells whether a record file can be opened
  for writing, \<open>store_listable\<close> whether the sessions directory can be listed.
\<close>

record 'img tool =
  is_capturing :: bool
  current_session_id :: "string option"
  current_session :: session
  history_sessions :: "session_dict list"
  hotkey_obj :: bool
  record_files :: "(string \<times> record_file) list"
  store_listable :: bool
  store_writable :: bool
  image_files :: "string \<rightharpoonup> 'img"
  locked_files :: "string set"
  notices :: "notice list"

definition notify :: "notice \<Rightarrow> 'img tool \<Rightarrow> 'img tool" where
  "notify n t = t\<lparr>notices := notices t @ [n]\<rparr>"

subsection \<open>Saving a session\<close>

text \<open>
  Opening a file for writing replaces the file of that name, or creates it; a new file
  is listed last.
\<close>

fun write_file :: "string \<Rightarrow> record_file \<Rightarrow> (string \<times> record_file) list
    \<Rightarrow> (string \<times> record_file) list" where
  "write_file fname c [] = [(fname, c)]"
| "write_file fname c ((g, d) # rest) =
     (if g = fname then (g, c) # rest else (g, d) # write_file fname c rest)"

definition save_session :: "session \<Rightarrow> 'img tool \<Rightarrow> 'img tool" where
  "save_session s t =
     (if store_writable t
      then t\<lparr>record_files :=
               write_file (session_id s @ ''.json'') (Parsed (dump s)) (record_files t)\<rparr>
      else notify Save_error t)"

definition save_current_session :: "'img tool \<Rightarrow> 'img tool" where
  "save_current_session t =
     (case current_session_id t of
        None \<Rightarrow> t
      | Some i \<Rightarrow> if i \<noteq> [] then save_session (current_session t) t else t)"

subsection \<open>Adding and deleting captures\<close>

text \<open>Decimal digits of a number, as an f-string prints them.\<close>

fun decimal :: "nat \<Rightarrow> string" where
  "decimal n =
     (if n < 10 then [char_of (48 + n)]
      else decimal (n div 10) @ [char_of (48 + n mod 10)])"

text \<open>
  The placeholder description: the number between the character U+7B2C and the three
  characters U+6B21, U+8BB0, U+5F55.
\<close>

definition record_placeholder :: "nat \<Rightarrow> string" where
  "record_placeholder n =
     [CHR 0xE7, CHR 0xAC, CHR 0xAC] @ decimal n @
     [CHR 0xE6, CHR 0xAC, CHR 0xA1, CHR 0xE8, CHR 0xAE, CHR 0xB0, CHR 0xE5, CHR 0xBD, CHR 0x95]"

text \<open>
  The last block of \<open>capture_screen\<close>, reached once the image has been written to
  \<open>img_path\<close>: the new capture gets the number \<open>len(captures) + 1\<close>.
\<close>

definition append_capture :: "string \<Rightarrow> string \<Rightarrow> string \<Rightarrow> session \<Rightarrow> session" where
  "append_capture img_path now description s =
     (let capture_count = length (captures s) + 1
      in s\<lparr>captures := captures s @
            [\<lparr>capture_id = int capture_count, capture_time = now,
              capture_description =
                (if description \<noteq> [] then description
                 else record_placeholder capture_count),
              image_path = img_path\<rparr>]\<rparr>)"

text \<open>The search loop of \<open>handle_capture_operation\<close>: the first capture with the id.\<close>

fun find_capture :: "int \<Rightarrow> capture list \<Rightarrow> nat option" where
  "find_capture cid [] = None"
| "find_capture cid (c # cs) =
     (if capture_id c = cid then Some 0 else map_option Suc (find_capture cid cs))"

text \<open>\<open>del captures[idx]\<close> for a valid index.\<close>

definition del_at :: "nat \<Rightarrow> 'a list \<Rightarrow> 'a list" where
  "del_at i xs = take i xs @ drop (Suc i) xs"

text \<open>The renumbering loop: \<open>cap["id"] = i + 1\<close> for every index \<open>i\<close>.\<close>

fun renumber_from :: "int \<Rightarrow> capture list \<Rightarrow> capture list" where
  "renumber_from n [] = []"
| "renumber_from n (c # cs) = c\<lparr>capture_id := n\<rparr> # renumber_from (n + 1) cs"

definition renumber :: "capture list \<Rightarrow> capture list" where
  "renumber cs = renumber_from 1 cs"

text \<open>
  A click in the operations column of the capture table: on its left half the
  description is edited (the dialog gives \<open>None\<close> when cancelled), on its right half
  the capture is deleted after a yes/no question.
\<close>

datatype click = Edit_click "string option" | Delete_click bool

definition set_description :: "nat \<Rightarrow> string \<Rightarrow> capture list \<Rightarrow> capture list" where
  "set_description i d cs = cs[i := (cs ! i)\<lparr>capture_description := d\<rparr>]"

definition handle_capture_operation ::
    "int \<Rightarrow> click \<Rightarrow> session \<Rightarrow> 'img tool \<Rightarrow> session \<times> 'img tool" where
  "handle_capture_operation cid ev s t =
     (case find_capture cid (captures s) of
        None \<Rightarrow> (s, t)
      | Some idx \<Rightarrow>
          (case ev of
             Edit_click None \<Rightarrow> (s, t)
           | Edit_click (Some new_desc) \<Rightarrow>
               (let s' = s\<lparr>captures := set_description idx new_desc (captures s)\<rparr>
                in (s', save_session s' t))
           | Delete_click False \<Rightarrow> (s, t)
           | Delete_click True \<Rightarrow>
               (let p = image_path (captures s ! idx)
                in if p \<in> dom (image_files t) \<and> p \<in> locked_files t
                   then (s, notify Delete_image_error t)
                   else
                     (let t' = (if p \<in> dom (image_files t)
                                then t\<lparr>image_files := (image_files t)(p := None)\<rparr>
                                else t);
                          s' = s\<lparr>captures := renumber (del_at idx (captures s))\<rparr>
                      in (s', save_session s' t')))))"

subsection \<open>Loading the history\<close>

definition endswith :: "string \<Rightarrow> string \<Rightarrow> bool" where
  "endswith s sfx = (length sfx \<le> length s \<and> drop (length s - length sfx) s = sfx)"

text \<open>
  The reading loop of \<open>load_history_sessions\<close>. It runs inside one \<open>try\<close> block
  that encloses the whole loop, so the first file that raises ends the loop: the result
  is the list gathered so far and whether the loop ran to its end.
\<close>

fun read_records :: "(string \<times> record_file) list \<Rightarrow> session_dict list
    \<Rightarrow> session_dict list \<times> bool" where
  "read_records [] acc = (acc, True)"
| "read_records ((filename, c) # rest) acc =
     (if endswith filename ''.json''
      then (case c of
              Corrupt \<Rightarrow> (acc, False)
            | Parsed d \<Rightarrow> read_records rest (acc @ [d]))
      else read_records rest acc)"

text \<open>
  \<open>sort(key=lambda x: x["start_time"], reverse=True)\<close>. The keys are computed
  first, for every element, and a missing key raises \<open>KeyError\<close> before the list is
  reordered (\<open>None\<close> here). A reverse sort keeps elements with equal keys in their
  original order. Strings compare character by character.
\<close>

definition sort_by_start_time :: "session_dict list \<Rightarrow> session_dict list option" where
  "sort_by_start_time xs =
     (if list_all (\<lambda>d. j_start_time d \<noteq> None) xs
      then Some (rev (sort_key (\<lambda>d. the (j_start_time d)) (rev xs)))
      else None)"

definition load_history_sessions :: "'img tool \<Rightarrow> 'img tool" where
  "load_history_sessions t =
     (let t0 = t\<lparr>history_sessions := []\<rparr>
      in if \<not> store_listable t then notify Load_error t0
         else (case read_records (record_files t) [] of
                 (hist, False) \<Rightarrow> notify Load_error (t0\<lparr>history_sessions := hist\<rparr>)
               | (hist, True) \<Rightarrow>
                   (case sort_by_start_time hist of
                      None \<Rightarrow> notify Load_error (t0\<lparr>history_sessions := hist\<rparr>)
                    | Some sorted_hist \<Rightarrow> t0\<lparr>history_sessions := sorted_hist\<rparr>)))"

text \<open>
  \<open>update_history_list\<close> fills the history table and reads the keys name,
  start_time, duration, captures and id of every loaded session; it raises
  \<open>KeyError\<close> when one is missing. The result tells whether it returned normally.
\<close>

definition update_history_list :: "'img tool \<Rightarrow> bool" where
  "update_history_list t =
     list_all (\<lambda>d. j_name d \<noteq> None \<and> j_start_time d \<noteq> None \<and> j_duration d \<noteq> None
                 \<and> j_captures d \<noteq> None \<and> j_id d \<noteq> None) (history_sessions t)"

subsection \<open>Starting and stopping a capture session\<close>

text \<open>
  Python's \<open>str.strip\<close> and \<open>str.lower\<close> on ASCII text: the white space
  characters are tab, line feed, vertical tab, form feed, carriage return, the four
  separators 0x1C to 0x1F and the space.
\<close>

definition py_space :: "char \<Rightarrow> bool" where
  "py_space c = ((9 \<le> (of_char c :: nat) \<and> (of_char c :: nat) \<le> 13)
                 \<or> (28 \<le> (of_char c :: nat) \<and> (of_char c :: nat) \<le> 32))"

definition py_strip :: "string \<Rightarrow> string" where
  "py_strip s = rev (dropWhile py_space (rev (dropWhile py_space s)))"

datatype hook_result = Hooked | Permission_denied | Hook_failed

text \<open>What the user and the system answer while \<open>start_capture\<close> runs.\<close>

record start_env =
  name_input :: "string option"
  description_input :: "string option"
  new_uuid :: string
  start_clock :: string
  images_dir_ok :: bool
  hotkey_result :: hook_result

datatype start_notice = Already_running | Name_required | Directory_error
  | Permission_error | Hotkey_error | Capture_started

definition start_capture :: "start_env \<Rightarrow> 'img tool \<Rightarrow> 'img tool \<times> start_notice" where
  "start_capture e t =
     (if is_capturing t then (t, Already_running)
      else (case name_input e of
              None \<Rightarrow> (t, Name_required)
            | Some raw_name \<Rightarrow>
                if py_strip raw_name = [] then (t, Name_required)
                else
                  (let t1 = t\<lparr>current_session_id := Some (new_uuid e),
                              current_session :=
                                \<lparr>session_id = new_uuid e,
                                 session_name = py_strip raw_name,
                                 session_description =
                                   (case description_input e of None \<Rightarrow> [] | Some d \<Rightarrow> d),
                                 start_time = start_clock e,
                                 end_time = [],
                                 duration = 0,
                                 captures = []\<rparr>\<rparr>
                   in if \<not> images_dir_ok e then (t1, Directory_error)
                      else (case hotkey_result e of
                              Permission_denied \<Rightarrow> (t1, Permission_error)
                            | Hook_failed \<Rightarrow> (t1, Hotkey_error)
                            | Hooked \<Rightarrow>
                                (t1\<lparr>hotkey_obj := True, is_capturing := True\<rparr>,
                                 Capture_started)))))"

text \<open>
  \<open>stop_capture\<close>: \<open>unhook_ok\<close> tells whether removing the hotkey succeeds,
  \<open>now\<close> is the time stamp and \<open>elapsed\<close> the whole seconds since the start. The
  session is saved and the history reloaded whatever the number of captures; only the
  editor window depends on it. When \<open>update_history_list\<close> raises, the callback ends
  there.
\<close>

definition stop_capture :: "bool \<Rightarrow> string \<Rightarrow> int \<Rightarrow> 'img tool \<Rightarrow> 'img tool" where
  "stop_capture unhook_ok now elapsed t =
     (if \<not> is_capturing t then t
      else
        (let t1 = (if hotkey_obj t
                   then (if unhook_ok then t\<lparr>hotkey_obj := False\<rparr>
                         else notify Hotkey_cleanup_warning t)
                   else t);
             t2 = t1\<lparr>is_capturing := False,
                      current_session :=
                        (current_session t1)\<lparr>end_time := now, duration := elapsed\<rparr>\<rparr>;
             t3 = load_history_sessions (save_current_session t2)
         in if \<not> update_history_list t3 then t3
            else if captures (current_session t3) \<noteq> [] then notify Editor_opened t3
            else notify No_captures_info t3))"

section \<open>The preview: zooming, annotating and compositing\<close>

subsection \<open>The zoomed view\<close>

text \<open>
  The attributes the preview canvas carries: the zoom factor, the canvas position of the
  image's top-left corner, the size of the original image and the size of the image as
  displayed. Python's floats are idealised as real numbers.
\<close>

record view =
  scale :: real
  x_pos :: real
  y_pos :: real
  original_width :: int
  original_height :: int
  resized_width :: int
  resized_height :: int

text \<open>\<open>int(x)\<close> on a float rounds towards zero.\<close>

definition py_int :: "real \<Rightarrow> int" where
  "py_int x = (if 0 \<le> x then \<lfloor>x\<rfloor> else \<lceil>x\<rceil>)"

record wheel_event =
  mouse_x :: real
  mouse_y :: real
  zoom_in :: bool

datatype wheel_outcome = Outside_image | Division_by_zero | Render_failed | Zoomed

definition zoom_scale :: "bool \<Rightarrow> real \<Rightarrow> real" where
  "zoom_scale zin s = (if zin then min (s * 1.1) 5.0 else max (s / 1.1) 0.1)"

text \<open>
  \<open>on_mousewheel\<close>. Resizing the image and building the photo are calls into the
  imaging library, which may refuse a size: \<open>render_ok w h\<close> tells whether they
  return for the size \<open>w\<close> by \<open>h\<close>. The scale attribute is assigned before these
  calls and the position after them, so a refusal leaves the new scale with the old
  position. Dividing by a zero scale raises before anything is assigned.
\<close>

definition on_mousewheel ::
    "(int \<Rightarrow> int \<Rightarrow> bool) \<Rightarrow> wheel_event \<Rightarrow> view \<Rightarrow> view \<times> wheel_outcome" where
  "on_mousewheel render_ok e v =
     (let rel_x = mouse_x e - x_pos v;
          rel_y = mouse_y e - y_pos v
      in if 0 \<le> rel_x \<and> rel_x < real_of_int (resized_width v)
            \<and> 0 \<le> rel_y \<and> rel_y < real_of_int (resized_height v)
         then
           (let new_scale = zoom_scale (zoom_in e) (scale v)
            in if scale v = 0 then (v, Division_by_zero)
               else
                 (let orig_rel_x = rel_x / scale v;
                      orig_rel_y = rel_y / scale v;
                      new_img_width = py_int (real_of_int (original_width v) * new_scale);
                      new_img_height = py_int (real_of_int (original_height v) * new_scale)
                  in if \<not> render_ok new_img_width new_img_height
                     then (v\<lparr>scale := new_scale\<rparr>, Render_failed)
                     else
                       (v\<lparr>scale := new_scale,
                          resized_width := new_img_width,
                          resized_height := new_img_height,
                          x_pos := mouse_x e - orig_rel_x * new_scale,
                          y_pos := mouse_y e - orig_rel_y * new_scale\<rparr>, Zoomed)))
         else (v, Outside_image))"

text \<open>
  The image-space point under a canvas point, as the mouse handlers compute it: exactly,
  and truncated to whole pixels.
\<close>

definition to_image_exact :: "view \<Rightarrow> real \<times> real \<Rightarrow> real \<times> real" where
  "to_image_exact v p = ((fst p - x_pos v) / scale v, (snd p - y_pos v) / scale v)"

definition to_image :: "view \<Rightarrow> real \<times> real \<Rightarrow> int \<times> int" where
  "to_image v p = (py_int ((fst p - x_pos v) / scale v), py_int ((snd p - y_pos v) / scale v))"

text \<open>The views after each of a sequence of wheel events.\<close>

fun wheel_trace :: "(int \<Rightarrow> int \<Rightarrow> bool) \<Rightarrow> wheel_event list \<Rightarrow> view \<Rightarrow> view list" where
  "wheel_trace render_ok [] v = []"
| "wheel_trace render_ok (e # es) v =
     (let v' = fst (on_mousewheel render_ok e v) in v' # wheel_trace render_ok es v')"

subsection \<open>Compositing\<close>

text \<open>
  Points and the crop region are in whole pixels of the original image. A stroke is its
  points, a colour and a line width; a text label is its position, the text, a colour
  and a font size.
\<close>

type_synonym point = "int \<times> int"
type_synonym region = "int \<times> int \<times> int \<times> int"
type_synonym stroke = "point list \<times> string \<times> int"
type_synonym label = "int \<times> int \<times> string \<times> string \<times> int"

text \<open>The calls made on the drawing surface: \<open>draw.line\<close> and \<open>draw.text\<close>.\<close>

datatype draw_cmd =
    Line point point string int
  | Text point string string int

text \<open>
  A raster is known by how it was made: pixels that came from outside (a screen grab),
  a crop of a raster, or a raster with one more drawing call applied. Copying a raster
  gives a raster with the same content.
\<close>

datatype 'px raster =
    Pixels 'px
  | Cropped region "'px raster"
  | Drawn "'px raster" draw_cmd

text \<open>
  Image objects live in a heap; an object's address is its index. \<open>crop\<close> and
  \<open>copy\<close> make a new object.
\<close>

definition alloc :: "'a list \<Rightarrow> 'a \<Rightarrow> 'a list \<times> nat" where
  "alloc h x = (h @ [x], length h)"

text \<open>\<open>for i in range(len(pts) - 1): draw.line([pts[i], pts[i + 1]], ...)\<close>\<close>

fun segments :: "point list \<Rightarrow> (point \<times> point) list" where
  "segments (p # q # rest) = (p, q) # segments (q # rest)"
| "segments _ = []"

definition in_region :: "region \<Rightarrow> point \<Rightarrow> bool" where
  "in_region r p =
     (case r of (x1, y1, x2, y2) \<Rightarrow>
        x1 \<le> fst p \<and> fst p \<le> x2 \<and> y1 \<le> snd p \<and> snd p \<le> y2)"

definition adjust_points :: "region \<Rightarrow> point list \<Rightarrow> point list" where
  "adjust_points r pts =
     (case r of (x1, y1, x2, y2) \<Rightarrow>
        map (\<lambda>p. (fst p - x1, snd p - y1)) (filter (in_region r) pts))"

definition stroke_cmds :: "region option \<Rightarrow> stroke \<Rightarrow> draw_cmd list" where
  "stroke_cmds selected_region st =
     (case st of (points, color, width) \<Rightarrow>
        (case selected_region of
           Some r \<Rightarrow>
             if length points > 1
             then (let adjusted_points = adjust_points r points
                   in if length adjusted_points > 1
                      then map (\<lambda>(p, q). Line p q color width) (segments adjusted_points)
                      else [])
             else []
         | None \<Rightarrow>
             if length points > 1
             then map (\<lambda>(p, q). Line p q color width) (segments points)
             else []))"

definition label_cmds :: "region option \<Rightarrow> label \<Rightarrow> draw_cmd list" where
  "label_cmds selected_region lb =
     (case lb of (x, y, txt, color, font_size) \<Rightarrow>
        (case selected_region of
           Some r \<Rightarrow>
             (case r of (x1, y1, x2, y2) \<Rightarrow>
                if in_region r (x, y) then [Text (x - x1, y - y1) txt color font_size] else [])
         | None \<Rightarrow> [Text (x, y) txt color font_size]))"

definition draw_commands :: "region option \<Rightarrow> stroke list \<Rightarrow> label list \<Rightarrow> draw_cmd list" where
  "draw_commands selected_region annotation_paths text_annotations =
     concat (map (stroke_cmds selected_region) annotation_paths)
     @ concat (map (label_cmds selected_region) text_annotations)"

text \<open>
  \<open>on_confirm\<close>: the result is the heap afterwards, the address of the final image and
  the trimmed description.
\<close>

definition on_confirm ::
    "'px raster list \<Rightarrow> nat \<Rightarrow> region option \<Rightarrow> stroke list \<Rightarrow> label list \<Rightarrow> string
     \<Rightarrow> 'px raster list \<times> nat \<times> string" where
  "on_confirm h original_image selected_region annotation_paths text_annotations description_var =
     (let description = py_strip description_var;
          (h1, final_image) =
             (case selected_region of
                Some r \<Rightarrow> alloc h (Cropped r (h ! original_image))
              | None \<Rightarrow> alloc h (h ! original_image))
      in if annotation_paths \<noteq> [] \<or> text_annotations \<noteq> []
         then
           (let (h2, draw_image) = alloc h1 (h1 ! final_image);
                h3 = h2[draw_image :=
                         foldl Drawn (h2 ! draw_image)
                           (draw_commands selected_region annotation_paths text_annotations)]
            in (h3, draw_image, description))
         else (h1, final_image, description))"

subsection \<open>Editing a stored capture again\<close>

text \<open>What the user does in the preview window: cancel, or confirm with a selection.\<close>

datatype preview_input =
    Cancel
  | Confirm "region option" "stroke list" "label list" string

datatype preview_notice = Missing_image_warning | Preview_error | Save_image_error
  | Annotation_saved | Preview_closed

text \<open>The search loop of \<open>preview_screenshot\<close>.\<close>

fun lookup_capture :: "int \<Rightarrow> capture list \<Rightarrow> capture option" where
  "lookup_capture cid [] = None"
| "lookup_capture cid (c # cs) = (if capture_id c = cid then Some c else lookup_capture cid cs)"

definition describe_capture :: "int \<Rightarrow> string \<Rightarrow> capture list \<Rightarrow> capture list" where
  "describe_capture cid d cs =
     (case find_capture cid cs of None \<Rightarrow> cs | Some i \<Rightarrow> set_description i d cs)"

text \<open>
  \<open>preview_screenshot\<close>: \<open>open_ok\<close> tells whether the stored image can be opened,
  \<open>save_ok\<close> whether the result can be written back.
\<close>

definition preview_screenshot ::
    "int \<Rightarrow> preview_input \<Rightarrow> bool \<Rightarrow> bool \<Rightarrow> session \<Rightarrow> 'px raster tool
     \<Rightarrow> (session \<times> 'px raster tool) \<times> preview_notice" where
  "preview_screenshot cid input open_ok save_ok s t =
     (case lookup_capture cid (captures s) of
        None \<Rightarrow> ((s, t), Missing_image_warning)
      | Some target_capture \<Rightarrow>
          (case image_files t (image_path target_capture) of
             None \<Rightarrow> ((s, t), Missing_image_warning)
           | Some img \<Rightarrow>
               if \<not> open_ok then ((s, t), Preview_error)
               else
                 (let (h, screenshot) = alloc [img] img;
                      original_description = capture_description target_capture
                  in case input of
                       Cancel \<Rightarrow> ((s, t), Preview_closed)
                     | Confirm reg paths labels description_var \<Rightarrow>
                         (case on_confirm h screenshot reg paths labels description_var of
                            (h', updated_image, updated_description) \<Rightarrow>
                              if \<not> save_ok then ((s, t), Save_image_error)
                              else
                                (let t1 = t\<lparr>image_files :=
                                             (image_files t)(image_path target_capture
                                                \<mapsto> h' ! updated_image)\<rparr>;
                                     s1 = (if updated_description \<noteq> original_description
                                           then s\<lparr>captures :=
                                                   describe_capture cid updated_description
                                                     (captures s)\<rparr>
                                           else s)
                                 in ((s1, save_session s1 t1), Annotation_saved))))))"

section \<open>The hotkey dialog\<close>

text \<open>Python's string methods on ASCII text.\<close>

definition py_lower :: "string \<Rightarrow> string" where
  "py_lower s =
     map (\<lambda>c. case map_of (zip ''ABCDEFGHIJKLMNOPQRSTUVWXYZ'' ''abcdefghijklmnopqrstuvwxyz'') c of
                Some l \<Rightarrow> l
              | None \<Rightarrow> c) s"

definition is_letter :: "char \<Rightarrow> bool" where
  "is_letter c =
     (c \<in> set ''abcdefghijklmnopqrstuvwxyz'' \<or> c \<in> set ''ABCDEFGHIJKLMNOPQRSTUVWXYZ'')"

definition is_digit :: "char \<Rightarrow> bool" where
  "is_digit c = (c \<in> set ''0123456789'')"

definition isalpha :: "string \<Rightarrow> bool" where
  "isalpha s = (s \<noteq> [] \<and> list_all is_letter s)"

definition isdigit :: "string \<Rightarrow> bool" where
  "isdigit s = (s \<noteq> [] \<and> list_all is_digit s)"

text \<open>\<open>s.split(sep)\<close> for a one-character separator: the pieces between separators.\<close>

fun split_on :: "char \<Rightarrow> string \<Rightarrow> string list" where
  "split_on sep [] = [[]]"
| "split_on sep (c # cs) =
     (if c = sep then [] # split_on sep cs
      else (case split_on sep cs of
              [] \<Rightarrow> [[c]]
            | w # ws \<Rightarrow> (c # w) # ws))"

definition valid_modifiers :: "string set" where
  "valid_modifiers = {''ctrl'', ''alt'', ''shift''}"

text \<open>The condition of the validation loop under which the dialog reports an error.\<close>

definition part_invalid :: "string \<Rightarrow> bool" where
  "part_invalid raw =
     (let part = py_strip raw
      in part \<noteq> [] \<and> part \<notin> valid_modifiers
         \<and> \<not> (isalpha part \<and> length part = 1)
         \<and> \<not> (isdigit part \<and> length part = 1)
         \<and> \<not> (take 1 part = ''f'' \<and> isdigit (drop 1 part)))"

fun check_parts :: "string list \<Rightarrow> bool" where
  "check_parts [] = True"
| "check_parts (part # parts) = (if part_invalid part then False else check_parts parts)"

datatype hotkey_error = Hotkey_empty | Hotkey_invalid_format

text \<open>
  \<open>confirm_hotkey\<close>: the new hotkey that is stored and saved to the configuration, or
  the error shown.
\<close>

definition confirm_hotkey :: "string \<Rightarrow> hotkey_error + string" where
  "confirm_hotkey hotkey_var =
     (let new_hotkey = py_lower (py_strip hotkey_var)
      in if new_hotkey = [] then Inl Hotkey_empty
         else if check_parts (split_on CHR ''+'' new_hotkey) then Inr new_hotkey
         else Inl Hotkey_invalid_format)"

section \<open>Notions used in the properties\<close>

text \<open>The ids of a capture list are \<open>1, 2, ..., len\<close>, in list order.\<close>

definition contiguous_ids :: "capture list \<Rightarrow> bool" where
  "contiguous_ids cs = (map capture_id cs = [1..int (length cs)])"

text \<open>Everything a capture holds apart from its id.\<close>

definition other_fields :: "capture \<Rightarrow> string \<times> string \<times> string" where
  "other_fields c = (capture_time c, capture_description c, image_path c)"

text \<open>
  The operations that change the capture list of a session: a capture is recorded, or
  the user clicks in the operations column of the editor's table.
\<close>

datatype session_op =
    Append_op string string string
  | Click_op int click

fun apply_op :: "session_op \<Rightarrow> session \<times> 'img tool \<Rightarrow> session \<times> 'img tool" where
  "apply_op (Append_op img_path now description) (s, t) =
     (append_capture img_path now description s, t)"
| "apply_op (Click_op cid ev) (s, t) = handle_capture_operation cid ev s t"

text \<open>The states after each operation of a sequence.\<close>

fun session_trace :: "session_op list \<Rightarrow> session \<times> 'img tool
    \<Rightarrow> (session \<times> 'img tool) list" where
  "session_trace [] st = []"
| "session_trace (op # ops) st = (let st' = apply_op op st in st' # session_trace ops st')"

subsection \<open>Concrete states\<close>

text \<open>\<open>_init_empty_session\<close> and the state \<open>__init__\<close> leaves on an empty store.\<close>

definition init_empty_session :: session where
  "init_empty_session =
     \<lparr>session_id = [], session_name = [], session_description = [], start_time = [],
      end_time = [], duration = 0, captures = []\<rparr>"

definition initial_tool :: "nat raster tool" where
  "initial_tool =
     \<lparr>is_capturing = False, current_session_id = None,
      current_session = init_empty_session,
      history_sessions = [], hotkey_obj = False, record_files = [],
      store_listable = True, store_writable = True, image_files = Map.empty,
      locked_files = {}, notices = []\<rparr>"

definition one_capture_session :: session where
  "one_capture_session =
     append_capture ''shots/a.png'' ''2025-01-01 10:00:00'' ''first''
       (init_empty_session\<lparr>session_id := ''s1''\<rparr>)"

definition two_capture_session :: session where
  "two_capture_session =
     append_capture ''shots/b.png'' ''2025-01-01 10:00:05'' [] one_capture_session"

text \<open>A session whose capture ids have gaps, as a record file edited by hand can hold.\<close>

definition gapped_session :: session where
  "gapped_session =
     init_empty_session\<lparr>session_id := ''s2'',
       captures :=
         [\<lparr>capture_id = 5, capture_time = ''2025-01-01 10:00:00'',
           capture_description = ''first'', image_path = ''shots/a.png''\<rparr>,
          \<lparr>capture_id = 9, capture_time = ''2025-01-01 10:00:05'',
           capture_description = ''second'', image_path = ''shots/b.png''\<rparr>]\<rparr>"

definition locked_tool :: "nat raster tool" where
  "locked_tool =
     initial_tool\<lparr>image_files := [''shots/a.png'' \<mapsto> Pixels 0],
                  locked_files := {''shots/a.png''}\<rparr>"

text \<open>A capture session started from the initial state, and not yet stopped.\<close>

definition demo_start :: start_env where
  "demo_start =
     \<lparr>name_input = Some '' Demo '', description_input = None, new_uuid = ''u1'',
      start_clock = ''2025-01-01 10:00:00'', images_dir_ok = True, hotkey_result = Hooked\<rparr>"

definition armed_tool :: "nat raster tool" where
  "armed_tool = fst (start_capture demo_start initial_tool)"

text \<open>
  A store is readable when every record file in it can be opened and parsed;
  \<open>parsed_records\<close> are the dictionaries of its record files, in listing order.
\<close>

definition readable :: "(string \<times> record_file) list \<Rightarrow> bool" where
  "readable fs = list_all (\<lambda>(filename, c). endswith filename ''.json'' \<longrightarrow> c \<noteq> Corrupt) fs"

definition parsed_records :: "(string \<times> record_file) list \<Rightarrow> session_dict list" where
  "parsed_records fs =
     concat (map (\<lambda>(filename, c). case c of Parsed d \<Rightarrow> if endswith filename ''.json'' then [d] else [] | Corrupt \<Rightarrow> []) fs)"

text \<open>A finished session as it is written to disk, and the same with its captures cut off.\<close>

definition good_record :: session_dict where
  "good_record =
     dump (two_capture_session\<lparr>session_name := ''Demo'', start_time := ''2025-01-01 10:00:00'',
             end_time := ''2025-01-01 10:05:00'', duration := 300\<rparr>)"

definition truncated_record :: session_dict where
  "truncated_record = good_record\<lparr>j_captures := None\<rparr>"

subsection \<open>Notions for the zoomed view\<close>

text \<open>
  The mouse is over the displayed image; the scale is within the zoom limits.
\<close>

definition inside_image :: "view \<Rightarrow> wheel_event \<Rightarrow> bool" where
  "inside_image v e =
     (0 \<le> mouse_x e - x_pos v \<and> mouse_x e - x_pos v < real_of_int (resized_width v)
      \<and> 0 \<le> mouse_y e - y_pos v \<and> mouse_y e - y_pos v < real_of_int (resized_height v))"

definition scale_in_bounds :: "view \<Rightarrow> bool" where
  "scale_in_bounds v = (0.1 \<le> scale v \<and> scale v \<le> 5.0)"

text \<open>
  The sizes the imaging library resizes to: \<open>Image.resize\<close> raises
  \<open>ValueError\<close> when the width or the height asked for is zero.
\<close>

definition positive_size :: "int \<Rightarrow> int \<Rightarrow> bool" where
  "positive_size w h = (0 < w \<and> 0 < h)"

definition demo_view :: view where
  "demo_view =
     \<lparr>scale = 1, x_pos = 100, y_pos = 50, original_width = 800, original_height = 600,
      resized_width = 800, resized_height = 600\<rparr>"

definition demo_wheel :: wheel_event where
  "demo_wheel = \<lparr>mouse_x = 300, mouse_y = 200, zoom_in = True\<rparr>"

text \<open>
  The view \<open>show_capture_preview\<close> sets up for a stored capture one pixel wide and
  a hundred high on a screen of 1920 by 1080, and a wheel turn towards zooming out with
  the mouse over that image.
\<close>

definition narrow_view :: view where
  "narrow_view =
     \<lparr>scale = 1, x_pos = 959, y_pos = 490, original_width = 1, original_height = 100,
      resized_width = 1, resized_height = 100\<rparr>"

definition narrow_wheel :: wheel_event where
  "narrow_wheel = \<lparr>mouse_x = 959, mouse_y = 540, zoom_in = False\<rparr>"

subsection \<open>Notions for compositing\<close>

text \<open>
  The end points of a drawn line; the pixels of a cropped output, which is
  \<open>x2 - x1\<close> wide and \<open>y2 - y1\<close> high, so that its columns are \<open>0\<close> to
  \<open>x2 - x1 - 1\<close> and its rows \<open>0\<close> to \<open>y2 - y1 - 1\<close>; the shift of a point into
  the cropped output; and the raster that compositing produces from a base raster.
\<close>

definition line_points :: "draw_cmd \<Rightarrow> point list" where
  "line_points cmd = (case cmd of Line p q color width \<Rightarrow> [p, q] | Text p txt color font_size \<Rightarrow> [])"

definition in_output :: "region \<Rightarrow> point \<Rightarrow> bool" where
  "in_output r p =
     (case r of (x1, y1, x2, y2) \<Rightarrow>
        0 \<le> fst p \<and> fst p < x2 - x1 \<and> 0 \<le> snd p \<and> snd p < y2 - y1)"

definition translate :: "region \<Rightarrow> point \<Rightarrow> point" where
  "translate r p = (case r of (x1, y1, x2, y2) \<Rightarrow> (fst p - x1, snd p - y1))"

definition composite :: "region option \<Rightarrow> stroke list \<Rightarrow> label list \<Rightarrow> 'px raster \<Rightarrow> 'px raster" where
  "composite reg paths labels base =
     foldl Drawn (case reg of None \<Rightarrow> base | Some r \<Rightarrow> Cropped r base)
       (draw_commands reg paths labels)"

definition demo_region :: region where
  "demo_region = (10, 10, 20, 20)"

definition demo_stroke :: stroke where
  "demo_stroke = ([(5, 5), (12, 12), (20, 15), (30, 30), (15, 18)], ''red'', 2)"

text \<open>A stroke drawn along the right edge of the region.\<close>

definition edge_stroke :: stroke where
  "edge_stroke = ([(20, 10), (20, 12)], ''red'', 2)"

subsection \<open>Notions for the hotkey dialog\<close>

text \<open>
  The function keys the dialog's hint names; a base key is a single letter, a single
  digit or one of these function keys.
\<close>

definition function_keys :: "string list" where
  "function_keys =
     [''f1'', ''f2'', ''f3'', ''f4'', ''f5'', ''f6'', ''f7'', ''f8'', ''f9'', ''f10'', ''f11'', ''f12'']"

definition base_key :: "string \<Rightarrow> bool" where
  "base_key p =
     ((isalpha p \<and> length p = 1) \<or> (isdigit p \<and> length p = 1) \<or> p \<in> set function_keys)"

text \<open>
  The syntax as the specification words it: modifier names from the fixed set joined by
  \<open>+\<close> with exactly one base key.
\<close>

definition spec_valid_hotkey :: "string \<Rightarrow> bool" where
  "spec_valid_hotkey s =
     (list_all (\<lambda>p. p \<in> valid_modifiers \<or> base_key p) (split_on CHR ''+'' s)
      \<and> length (filter base_key (split_on CHR ''+'' s)) = 1)"

text \<open>
  What the validation loop looks at: a part shaped like a function key (an \<open>f\<close>
  followed by digits), the parts of the trimmed, lower-cased candidate, each trimmed,
  the parts the loop lets pass, and text made of ASCII characters only.
\<close>

definition fkey_shaped :: "string \<Rightarrow> bool" where
  "fkey_shaped p = (take 1 p = ''f'' \<and> isdigit (drop 1 p))"

definition hotkey_parts :: "string \<Rightarrow> string list" where
  "hotkey_parts s = map py_strip (split_on CHR ''+'' (py_lower (py_strip s)))"

definition accepted_part :: "string \<Rightarrow> bool" where
  "accepted_part q = (q = [] \<or> q \<in> valid_modifiers \<or> base_key q)"

definition is_ascii :: "string \<Rightarrow> bool" where
  "is_ascii s = list_all (\<lambda>c. (of_char c :: nat) < 128) s"

section \<open>Capture lists\<close>

lemma renumber_from_ids:
  "map capture_id (renumber_from n cs) = [n..n + int (length cs) - 1]"
proof (induction cs arbitrary: n)
  case Nil
  then show ?case by simp
next
  case (Cons c cs)
  have "[n..n + int (length (c # cs)) - 1] = n # [n + 1..n + int (length (c # cs)) - 1]"
    by (rule upto_rec1) simp
  then show ?case using Cons.IH [of "n + 1"] by (simp add: add.commute add.left_commute)
qed

lemma length_renumber_from [simp]: "length (renumber_from n cs) = length cs"
  by (induction cs arbitrary: n) auto

lemma length_renumber [simp]: "length (renumber cs) = length cs"
  by (simp add: renumber_def)

lemma renumber_contiguous: "contiguous_ids (renumber cs)"
  by (simp add: contiguous_ids_def renumber_def renumber_from_ids)

lemma append_contiguous:
  assumes "contiguous_ids (captures s)"
  shows "contiguous_ids (captures (append_capture p n d s))"
proof -
  have "[1..int (length (captures s)) + 1] = [1..int (length (captures s))] @ [int (length (captures s)) + 1]"
    using upto_rec2 [of 1 "int (length (captures s)) + 1"] by simp
  then show ?thesis
    using assms by (simp add: contiguous_ids_def append_capture_def Let_def add.commute)
qed

lemma set_description_ids: "map capture_id (set_description i d cs) = map capture_id cs"
proof (cases "i < length cs")
  case True
  then have "(map capture_id cs)[i := capture_id (cs ! i)] = map capture_id cs"
    by (metis list_update_id nth_map)
  with True show ?thesis by (simp add: set_description_def map_update)
next
  case False
  then have "cs[i := (cs ! i)\<lparr>capture_description := d\<rparr>] = cs"
    by (simp add: list_update_beyond)
  then show ?thesis by (simp add: set_description_def)
qed

lemma length_set_description: "length (set_description i d cs) = length cs"
  by (simp add: set_description_def)

lemma set_description_contiguous:
  "contiguous_ids cs \<Longrightarrow> contiguous_ids (set_description i d cs)"
  by (simp add: contiguous_ids_def set_description_ids length_set_description)

lemma handle_contiguous:
  assumes "contiguous_ids (captures s)"
  shows "contiguous_ids (captures (fst (handle_capture_operation cid ev s t)))"
  using assms
  by (auto simp: handle_capture_operation_def Let_def renumber_contiguous
        set_description_contiguous split: option.splits click.splits bool.splits)

lemma apply_op_contiguous:
  "contiguous_ids (captures (fst st)) \<Longrightarrow> contiguous_ids (captures (fst (apply_op op st)))"
  by (cases op; cases st) (simp_all add: append_contiguous handle_contiguous)

lemma find_capture_Some:
  "find_capture cid cs = Some i \<Longrightarrow> i < length cs \<and> capture_id (cs ! i) = cid"
  by (induction cs arbitrary: i) (auto split: if_splits)

lemma map_of_write_file: "map_of (write_file f c fs) f = Some c"
  by (induction fs) auto

lemma map_of_write_file_other: "g \<noteq> f \<Longrightarrow> map_of (write_file f c fs) g = map_of fs g"
  by (induction fs) auto

lemma renumber_from_other_fields:
  "map other_fields (renumber_from n cs) = map other_fields cs"
  by (induction cs arbitrary: n) (auto simp: other_fields_def)

lemma map_del_at: "map f (del_at i xs) = del_at i (map f xs)"
  by (simp add: del_at_def take_map drop_map)

lemma length_del_at: "i < length xs \<Longrightarrow> length (del_at i xs) = length xs - 1"
  by (auto simp: del_at_def)

lemma trace_contiguous:
  "contiguous_ids (captures (fst st)) \<Longrightarrow>
   list_all (\<lambda>st'. contiguous_ids (captures (fst st'))) (session_trace ops st)"
proof (induction ops arbitrary: st)
  case Nil
  then show ?case by simp
next
  case (Cons op ops)
  have "contiguous_ids (captures (fst (apply_op op st)))"
    using Cons.prems by (rule apply_op_contiguous)
  then show ?case using Cons.IH by (simp add: Let_def)
qed

lemma completed_delete:
  assumes "find_capture cid (captures s) = Some idx"
    and "image_files t (image_path (captures s ! idx)) = None
         \<or> image_path (captures s ! idx) \<notin> locked_files t"
  shows "captures (fst (handle_capture_operation cid (Delete_click True) s t))
         = renumber (del_at idx (captures s))"
  using assms by (auto simp: handle_capture_operation_def Let_def dom_def)

text \<open>
  C3, capture id contiguity. Recording a capture appends one capture to the list, with
  the id \<open>len + 1\<close>. A delete that goes through (the capture is found, and its image
  file is missing or can be removed) takes that capture out, keeps the others in order
  and numbers them \<open>1..len\<close>, whatever the ids were before. Hence, for a session whose
  capture ids are \<open>1..len\<close> (a new session has no captures) and any finite sequence of
  recordings and clicks in the editor's table, the ids after each operation are
  exactly \<open>1..len\<close>, in list order.
\<close>

theorem capture_ids_contiguous:
  "(contiguous_ids (captures (fst st))
      \<longrightarrow> list_all (\<lambda>st'. contiguous_ids (captures (fst st'))) (session_trace ops st))
   \<and> captures (append_capture img_path now description s)
       = captures s @
         [\<lparr>capture_id = int (length (captures s)) + 1, capture_time = now,
           capture_description =
             (if description \<noteq> [] then description
              else record_placeholder (length (captures s) + 1)),
           image_path = img_path\<rparr>]
   \<and> (find_capture cid (captures s) = Some idx
        \<and> (image_files t (image_path (captures s ! idx)) = None
            \<or> image_path (captures s ! idx) \<notin> locked_files t)
      \<longrightarrow> length (captures (fst (handle_capture_operation cid (Delete_click True) s t)))
            = length (captures s) - 1
          \<and> map other_fields
              (captures (fst (handle_capture_operation cid (Delete_click True) s t)))
            = del_at idx (map other_fields (captures s))
          \<and> map capture_id
              (captures (fst (handle_capture_operation cid (Delete_click True) s t)))
            = [1..int (length (captures s)) - 1])"
proof (intro conjI impI)
  assume "contiguous_ids (captures (fst st))"
  then show "list_all (\<lambda>st'. contiguous_ids (captures (fst st'))) (session_trace ops st)"
    by (rule trace_contiguous)
next
  show "captures (append_capture img_path now description s)
       = captures s @
         [\<lparr>capture_id = int (length (captures s)) + 1, capture_time = now,
           capture_description =
             (if description \<noteq> [] then description
              else record_placeholder (length (captures s) + 1)),
           image_path = img_path\<rparr>]"
    by (simp add: append_capture_def Let_def)
next
  assume a: "find_capture cid (captures s) = Some idx
        \<and> (image_files t (image_path (captures s ! idx)) = None
            \<or> image_path (captures s ! idx) \<notin> locked_files t)"
  then have idx: "idx < length (captures s)"
    using find_capture_Some by blast
  have d: "captures (fst (handle_capture_operation cid (Delete_click True) s t))
         = renumber (del_at idx (captures s))"
    using a by (intro completed_delete) simp_all
  show "length (captures (fst (handle_capture_operation cid (Delete_click True) s t)))
            = length (captures s) - 1"
    unfolding d using idx by (simp add: length_del_at)
  show "map other_fields
              (captures (fst (handle_capture_operation cid (Delete_click True) s t)))
            = del_at idx (map other_fields (captures s))"
    unfolding d by (simp add: renumber_def renumber_from_other_fields map_del_at)
  have "contiguous_ids (renumber (del_at idx (captures s)))"
    by (rule renumber_contiguous)
  then show "map capture_id
              (captures (fst (handle_capture_operation cid (Delete_click True) s t)))
            = [1..int (length (captures s)) - 1]"
    unfolding d using idx by (simp add: contiguous_ids_def length_del_at of_nat_diff)
qed

theorem capture_ids_contiguous_witness:
  "contiguous_ids (captures (fst (init_empty_session, initial_tool)))
   \<and> find_capture 5 (captures gapped_session) = Some 0
   \<and> image_files initial_tool (image_path (captures gapped_session ! 0)) = None
   \<and> list_all (\<lambda>st'. contiguous_ids (captures (fst st')))
        (session_trace
           [Append_op ''a.png'' ''t1'' ''first'', Append_op ''b.png'' ''t2'' [],
            Click_op 1 (Delete_click True)]
           (init_empty_session, initial_tool))
   \<and> map capture_id (captures (append_capture ''c.png'' ''t3'' [] gapped_session)) = [5, 9, 3]
   \<and> map capture_id
        (captures (fst (handle_capture_operation 5 (Delete_click True)
                          gapped_session initial_tool))) = [1]
   \<and> map image_path
        (captures (fst (handle_capture_operation 5 (Delete_click True)
                          gapped_session initial_tool))) = [''shots/b.png'']"
proof -
  note th = capture_ids_contiguous
    [where st = "(init_empty_session, initial_tool)"
       and ops = "[Append_op ''a.png'' ''t1'' ''first'', Append_op ''b.png'' ''t2'' [],
                   Click_op 1 (Delete_click True)]"
       and s = gapped_session and img_path = "''c.png''" and now = "''t3''"
       and description = "[]" and cid = 5 and idx = 0 and t = initial_tool]
  have h: "contiguous_ids (captures (fst (init_empty_session, initial_tool)))"
    by (simp add: contiguous_ids_def init_empty_session_def)
  have f: "find_capture 5 (captures gapped_session) = Some 0"
    by (simp add: gapped_session_def)
  have m: "image_files initial_tool (image_path (captures gapped_session ! 0)) = None"
    by (simp add: initial_tool_def)
  have len: "length (captures gapped_session) = 2"
    and fields: "map other_fields (captures gapped_session)
        = [(''2025-01-01 10:00:00'', ''first'', ''shots/a.png''),
           (''2025-01-01 10:00:05'', ''second'', ''shots/b.png'')]"
    and ids: "map capture_id (captures gapped_session) = [5, 9]"
    by (simp_all add: gapped_session_def other_fields_def)
  have c1: "list_all (\<lambda>st'. contiguous_ids (captures (fst st')))
        (session_trace
           [Append_op ''a.png'' ''t1'' ''first'', Append_op ''b.png'' ''t2'' [],
            Click_op 1 (Delete_click True)]
           (init_empty_session, initial_tool))"
    by (rule th [THEN conjunct1, THEN mp, OF h])
  have "captures (append_capture ''c.png'' ''t3'' [] gapped_session)
       = captures gapped_session @
         [\<lparr>capture_id = int (length (captures gapped_session)) + 1, capture_time = ''t3'',
           capture_description =
             (if [] \<noteq> ([]::string) then []
              else record_placeholder (length (captures gapped_session) + 1)),
           image_path = ''c.png''\<rparr>]"
    by (rule th [THEN conjunct2, THEN conjunct1])
  then have c2: "map capture_id (captures (append_capture ''c.png'' ''t3'' [] gapped_session))
      = [5, 9, 3]"
    by (simp add: ids len)
  note del = th [THEN conjunct2, THEN conjunct2, THEN mp, OF conjI [OF f disjI1 [OF m]]]
  have c3: "map capture_id
        (captures (fst (handle_capture_operation 5 (Delete_click True)
                          gapped_session initial_tool))) = [1]"
    using del [THEN conjunct2, THEN conjunct2] by (simp add: len)
  have "map other_fields
        (captures (fst (handle_capture_operation 5 (Delete_click True)
                          gapped_session initial_tool)))
      = [(''2025-01-01 10:00:05'', ''second'', ''shots/b.png'')]"
    using del [THEN conjunct2, THEN conjunct1] by (simp add: fields del_at_def)
  then have "map (snd \<circ> snd \<circ> other_fields)
        (captures (fst (handle_capture_operation 5 (Delete_click True)
                          gapped_session initial_tool))) = [''shots/b.png'']"
    unfolding map_map [symmetric] by simp
  then have c4: "map image_path
        (captures (fst (handle_capture_operation 5 (Delete_click True)
                          gapped_session initial_tool))) = [''shots/b.png'']"
    by (simp add: comp_def other_fields_def)
  show ?thesis
    using h f m c1 c2 c3 c4 by (intro conjI)
qed

text \<open>
  C7, capture-deletion atomicity. When the image file of the capture exists and removing
  it raises, the confirmed deletion is abandoned: the session is returned as it was (the
  capture stays, nothing is renumbered), no record file is written, no image file
  changes, and the only effect is the error message shown.
\<close>

theorem delete_aborted_when_remove_fails:
  assumes "find_capture cid (captures s) = Some idx"
    and "image_files t (image_path (captures s ! idx)) \<noteq> None"
    and "image_path (captures s ! idx) \<in> locked_files t"
  shows "handle_capture_operation cid (Delete_click True) s t
         = (s, t\<lparr>notices := notices t @ [Delete_image_error]\<rparr>)"
  using assms by (auto simp: handle_capture_operation_def Let_def notify_def dom_def)

theorem delete_aborted_when_remove_fails_witness:
  "find_capture 1 (captures one_capture_session) = Some 0
   \<and> image_files locked_tool (image_path (captures one_capture_session ! 0)) \<noteq> None
   \<and> image_path (captures one_capture_session ! 0) \<in> locked_files locked_tool
   \<and> handle_capture_operation 1 (Delete_click True) one_capture_session locked_tool
       = (one_capture_session,
          locked_tool\<lparr>notices := notices locked_tool @ [Delete_image_error]\<rparr>)"
proof -
  have a: "find_capture 1 (captures one_capture_session) = Some 0"
    by (simp add: one_capture_session_def append_capture_def init_empty_session_def)
  have b: "image_files locked_tool (image_path (captures one_capture_session ! 0)) \<noteq> None"
    by (simp add: one_capture_session_def append_capture_def init_empty_session_def
          locked_tool_def initial_tool_def)
  have c: "image_path (captures one_capture_session ! 0) \<in> locked_files locked_tool"
    by (simp add: one_capture_session_def append_capture_def init_empty_session_def
          locked_tool_def initial_tool_def)
  show ?thesis
    using a b c delete_aborted_when_remove_fails [OF a b c] by simp
qed

text \<open>
  C10, a missing image file does not block the deletion. When the image file of the
  capture is no longer on disk, the confirmed deletion goes through: the capture is
  taken out of the list, the others keep their order and content and are renumbered
  \<open>1..len\<close>, and the session is saved (on a writable store the record file then
  holds the new session and no error is shown).
\<close>

theorem delete_succeeds_when_image_missing:
  assumes "find_capture cid (captures s) = Some idx"
    and "image_files t (image_path (captures s ! idx)) = None"
    and "handle_capture_operation cid (Delete_click True) s t = (s', t')"
  shows "captures s' = renumber (del_at idx (captures s))
         \<and> map other_fields (captures s') = del_at idx (map other_fields (captures s))
         \<and> length (captures s') = length (captures s) - 1
         \<and> contiguous_ids (captures s')
         \<and> t' = save_session s' t
         \<and> (store_writable t \<longrightarrow>
              notices t' = notices t
              \<and> map_of (record_files t') (session_id s @ ''.json'') = Some (Parsed (dump s')))"
proof -
  have idx: "idx < length (captures s)"
    using assms(1) by (simp add: find_capture_Some)
  have s': "s' = s\<lparr>captures := renumber (del_at idx (captures s))\<rparr>"
    and t': "t' = save_session s' t"
    using assms by (auto simp: handle_capture_operation_def Let_def dom_def)
  have "map other_fields (captures s') = del_at idx (map other_fields (captures s))"
    by (simp add: s' renumber_def renumber_from_other_fields map_del_at)
  moreover have "length (captures s') = length (captures s) - 1"
    using idx by (simp add: s' length_del_at)
  moreover have "contiguous_ids (captures s')"
    by (simp add: s' renumber_contiguous)
  moreover have "store_writable t \<longrightarrow>
      notices t' = notices t
      \<and> map_of (record_files t') (session_id s @ ''.json'') = Some (Parsed (dump s'))"
    by (simp add: t' save_session_def map_of_write_file s')
  ultimately show ?thesis using s' t' by simp
qed

theorem delete_succeeds_when_image_missing_witness:
  "find_capture 1 (captures two_capture_session) = Some 0
   \<and> image_files initial_tool (image_path (captures two_capture_session ! 0)) = None
   \<and> map capture_id
        (captures (fst (handle_capture_operation 1 (Delete_click True)
                          two_capture_session initial_tool))) = [1]
   \<and> map image_path
        (captures (fst (handle_capture_operation 1 (Delete_click True)
                          two_capture_session initial_tool))) = [''shots/b.png'']"
proof -
  have a: "find_capture 1 (captures two_capture_session) = Some 0"
    by (simp add: two_capture_session_def one_capture_session_def append_capture_def
          init_empty_session_def)
  have b: "image_files initial_tool (image_path (captures two_capture_session ! 0)) = None"
    by (simp add: initial_tool_def)
  obtain s' t' where r:
    "handle_capture_operation 1 (Delete_click True) two_capture_session initial_tool = (s', t')"
    by (cases "handle_capture_operation 1 (Delete_click True) two_capture_session initial_tool")
  have "captures s' = renumber (del_at 0 (captures two_capture_session))"
    using delete_succeeds_when_image_missing [OF a b r] by simp
  then have "map capture_id (captures s') = [1] \<and> map image_path (captures s') = [''shots/b.png'']"
    by (simp add: two_capture_session_def one_capture_session_def append_capture_def
          init_empty_session_def renumber_def del_at_def)
  then show ?thesis using a b r by simp
qed

section \<open>Stopping a session and loading the history\<close>

lemma read_records_readable:
  "readable fs \<Longrightarrow> read_records fs acc = (acc @ parsed_records fs, True)"
  by (induction fs arbitrary: acc)
     (auto simp: readable_def parsed_records_def split: record_file.splits)

lemma write_file_mem: "(f, c) \<in> set (write_file f c fs)"
  by (induction fs) auto

lemma readable_write_file:
  "readable fs \<Longrightarrow> readable (write_file f (Parsed d) fs)"
  by (induction fs) (auto simp: readable_def)

lemma parsed_records_mem:
  "(f, Parsed d) \<in> set fs \<Longrightarrow> endswith f ''.json'' \<Longrightarrow> d \<in> set (parsed_records fs)"
  by (force simp: parsed_records_def)

lemma endswith_append: "endswith (i @ sfx) sfx"
  by (simp add: endswith_def)

lemma sort_by_start_time_set:
  "sort_by_start_time xs = Some ys \<Longrightarrow> set ys = set xs"
  by (auto simp: sort_by_start_time_def split: if_splits)

lemma load_history_readable:
  assumes "store_listable t" and "readable (record_files t)"
  shows "set (history_sessions (load_history_sessions t)) = set (parsed_records (record_files t))"
proof (cases "sort_by_start_time (parsed_records (record_files t))")
  case None
  then show ?thesis
    using assms by (simp add: load_history_sessions_def read_records_readable notify_def)
next
  case (Some ys)
  then show ?thesis
    using assms sort_by_start_time_set [OF Some]
    by (simp add: load_history_sessions_def read_records_readable notify_def)
qed

lemma load_history_files [simp]:
  "record_files (load_history_sessions t) = record_files t"
  by (simp add: load_history_sessions_def notify_def Let_def split: prod.splits bool.splits option.splits)

lemma load_history_current [simp]:
  "current_session (load_history_sessions t) = current_session t"
  by (simp add: load_history_sessions_def notify_def Let_def split: prod.splits bool.splits option.splits)

lemma armed_tool_eq:
  "armed_tool =
     initial_tool\<lparr>current_session_id := Some ''u1'',
       current_session :=
         \<lparr>session_id = ''u1'', session_name = ''Demo'', session_description = [],
          start_time = ''2025-01-01 10:00:00'', end_time = [], duration = 0, captures = []\<rparr>,
       hotkey_obj := True, is_capturing := True\<rparr>"
  by (simp add: armed_tool_def start_capture_def demo_start_def initial_tool_def
        py_strip_def py_space_def)

lemma save_current_session_current [simp]:
  "current_session (save_current_session t) = current_session t"
  by (simp add: save_current_session_def save_session_def notify_def split: option.splits)

lemma load_history_notices:
  "notices (load_history_sessions t) = notices t
   \<or> notices (load_history_sessions t) = notices t @ [Load_error]"
  by (simp add: load_history_sessions_def notify_def Let_def
        split: prod.splits bool.splits option.splits)

text \<open>
  C1, empty-session discard, as the code has it. Stopping an armed session saves it
  whether or not it has captures: on a writable store the record file named after the
  session id exists afterwards and holds the session with its end time and duration,
  and when the store can be listed and every record file in it can be parsed, the
  reloaded history contains the session's id. The number of captures only decides what
  is shown at the end: once the history table has been refreshed without error, the
  information box for a session without captures and the editor window otherwise. For
  a session without captures no editor window is opened.
\<close>

theorem stop_saves_empty_session:
  assumes "is_capturing t"
    and "current_session_id t = Some i" and "i \<noteq> []"
    and "session_id (current_session t) = i"
    and "store_writable t"
    and "stop_capture unhook_ok now elapsed t = t'"
  shows "map_of (record_files t') (i @ ''.json'')
           = Some (Parsed (dump ((current_session t)\<lparr>end_time := now, duration := elapsed\<rparr>)))
         \<and> (store_listable t \<and> readable (record_files t)
              \<longrightarrow> Some i \<in> set (map j_id (history_sessions t')))
         \<and> (update_history_list t'
              \<longrightarrow> notices t' \<noteq> []
                  \<and> last (notices t')
                      = (if captures (current_session t) = [] then No_captures_info
                         else Editor_opened))
         \<and> (captures (current_session t) = [] \<and> Editor_opened \<notin> set (notices t)
              \<longrightarrow> Editor_opened \<notin> set (notices t'))"
proof -
  define s where "s = (current_session t)\<lparr>end_time := now, duration := elapsed\<rparr>"
  define t1 where "t1 = (if hotkey_obj t
                   then (if unhook_ok then t\<lparr>hotkey_obj := False\<rparr>
                         else notify Hotkey_cleanup_warning t)
                   else t)"
  define t2 where "t2 = t1\<lparr>is_capturing := False, current_session := s\<rparr>"
  define t3 where "t3 = load_history_sessions (save_current_session t2)"
  have t1: "current_session t1 = current_session t" "record_files t1 = record_files t"
    "store_writable t1 = store_writable t" "store_listable t1 = store_listable t"
    "current_session_id t1 = current_session_id t"
    by (simp_all add: t1_def notify_def)
  have n1: "notices t1 = notices t \<or> notices t1 = notices t @ [Hotkey_cleanup_warning]"
    by (simp add: t1_def notify_def)
  have saved: "save_current_session t2
      = t2\<lparr>record_files := write_file (i @ ''.json'') (Parsed (dump s)) (record_files t)\<rparr>"
    using assms(2,3,4,5) by (simp add: save_current_session_def save_session_def t2_def t1 s_def)
  have files: "record_files t3 = write_file (i @ ''.json'') (Parsed (dump s)) (record_files t)"
    by (simp add: t3_def saved)
  have n3: "notices t3 = notices t1 \<or> notices t3 = notices t1 @ [Load_error]"
    using load_history_notices [of "save_current_session t2"]
    unfolding t3_def saved by (simp add: t2_def)
  have stop: "t' = (if \<not> update_history_list t3 then t3
                    else if captures (current_session t) \<noteq> [] then notify Editor_opened t3
                    else notify No_captures_info t3)"
    using assms(1,6)
    by (auto simp: stop_capture_def Let_def t3_def t2_def t1_def s_def notify_def)
  have t': "record_files t' = record_files t3 \<and> history_sessions t' = history_sessions t3"
    unfolding stop by (simp add: notify_def)
  have upd: "update_history_list t' = update_history_list t3"
    using t' by (simp add: update_history_list_def)
  have "map_of (record_files t') (i @ ''.json'') = Some (Parsed (dump s))"
    by (simp add: t' files map_of_write_file)
  moreover have "Some i \<in> set (map j_id (history_sessions t'))"
    if "store_listable t" "readable (record_files t)"
  proof -
    have "store_listable (save_current_session t2)" "readable (record_files (save_current_session t2))"
      unfolding saved using that by (simp_all add: t2_def t1 readable_write_file)
    then have "set (history_sessions t3) = set (parsed_records (record_files t3))"
      unfolding t3_def by (simp add: load_history_readable)
    moreover have "dump s \<in> set (parsed_records (record_files t3))"
      unfolding files by (rule parsed_records_mem [OF write_file_mem endswith_append])
    ultimately have "dump s \<in> set (history_sessions t')" by (simp add: t')
    moreover have "j_id (dump s) = Some i"
      using assms(4) by (simp add: dump_def s_def)
    ultimately show ?thesis by force
  qed
  moreover have "notices t' \<noteq> []
      \<and> last (notices t')
          = (if captures (current_session t) = [] then No_captures_info else Editor_opened)"
    if "update_history_list t'"
    using that upd unfolding stop by (simp add: notify_def)
  moreover have "Editor_opened \<notin> set (notices t')"
    if "captures (current_session t) = []" "Editor_opened \<notin> set (notices t)"
  proof -
    have "Editor_opened \<notin> set (notices t3)"
      using n1 n3 that(2) by auto
    then show ?thesis
      unfolding stop using that(1) by (simp add: notify_def)
  qed
  ultimately show ?thesis by (simp add: s_def)
qed

theorem stop_saves_empty_session_witness:
  "is_capturing armed_tool
   \<and> current_session_id armed_tool = Some ''u1''
   \<and> session_id (current_session armed_tool) = ''u1''
   \<and> captures (current_session armed_tool) = []
   \<and> Editor_opened \<notin> set (notices armed_tool)
   \<and> store_writable armed_tool \<and> store_listable armed_tool
   \<and> readable (record_files armed_tool)
   \<and> update_history_list (stop_capture True ''2025-01-01 10:05:00'' 300 armed_tool)
   \<and> map_of (record_files (stop_capture True ''2025-01-01 10:05:00'' 300 armed_tool)) ''u1.json''
       = Some (Parsed (dump ((current_session armed_tool)
                               \<lparr>end_time := ''2025-01-01 10:05:00'', duration := 300\<rparr>)))
   \<and> Some ''u1'' \<in> set (map j_id (history_sessions
                                 (stop_capture True ''2025-01-01 10:05:00'' 300 armed_tool)))
   \<and> last (notices (stop_capture True ''2025-01-01 10:05:00'' 300 armed_tool)) = No_captures_info
   \<and> Editor_opened \<notin> set (notices (stop_capture True ''2025-01-01 10:05:00'' 300 armed_tool))"
proof -
  have a: "is_capturing armed_tool" "current_session_id armed_tool = Some ''u1''"
    "''u1'' \<noteq> []" "session_id (current_session armed_tool) = ''u1''"
    "store_writable armed_tool"
    by (simp_all add: armed_tool_eq initial_tool_def)
  have b: "store_listable armed_tool" "readable (record_files armed_tool)"
    "captures (current_session armed_tool) = []" "Editor_opened \<notin> set (notices armed_tool)"
    by (simp_all add: armed_tool_eq initial_tool_def readable_def)
  have c: "update_history_list (stop_capture True ''2025-01-01 10:05:00'' 300 armed_tool)"
    by (simp add: armed_tool_eq initial_tool_def stop_capture_def save_current_session_def
          save_session_def load_history_sessions_def endswith_def sort_by_start_time_def
          update_history_list_def notify_def dump_def Let_def)
  show ?thesis
    using a b c stop_saves_empty_session [OF a refl, of True "''2025-01-01 10:05:00''" 300]
    by simp
qed

text \<open>
  C1 as the specification states it fails: a session is started from the initial
  state and stopped without a capture; there was no record file for its id before, there
  is one afterwards, and the reloaded history lists the session.
\<close>

theorem empty_session_discard_counterexample:
  "is_capturing armed_tool
   \<and> captures (current_session armed_tool) = []
   \<and> current_session_id armed_tool = Some ''u1''
   \<and> map_of (record_files armed_tool) ''u1.json'' = None
   \<and> map_of (record_files (stop_capture True ''2025-01-01 10:05:00'' 300 armed_tool)) ''u1.json''
       \<noteq> None
   \<and> map j_id (history_sessions (stop_capture True ''2025-01-01 10:05:00'' 300 armed_tool))
       = [Some ''u1'']"
  by (simp add: armed_tool_eq initial_tool_def stop_capture_def save_current_session_def
        save_session_def load_history_sessions_def endswith_def sort_by_start_time_def
        update_history_list_def notify_def dump_def Let_def)

text \<open>
  C2, loader robustness, evaluated on the code. No exception leaves the loader, but a
  record file that cannot be parsed ends the whole loading: with a corrupt file listed
  before a well-formed one the history stays empty and one error is shown. A record that
  parses but lacks its captures is not skipped: it is loaded like any other, without a
  diagnostic.
\<close>

theorem loader_stops_at_corrupt_record:
  "history_sessions (load_history_sessions
      (initial_tool\<lparr>record_files := [(''a.json'', Corrupt), (''b.json'', Parsed good_record)]\<rparr>))
     = []
   \<and> notices (load_history_sessions
      (initial_tool\<lparr>record_files := [(''a.json'', Corrupt), (''b.json'', Parsed good_record)]\<rparr>))
     = [Load_error]
   \<and> history_sessions (load_history_sessions
      (initial_tool\<lparr>record_files := [(''c.json'', Parsed truncated_record)]\<rparr>))
     = [truncated_record]
   \<and> notices (load_history_sessions
      (initial_tool\<lparr>record_files := [(''c.json'', Parsed truncated_record)]\<rparr>))
     = []"
  by (simp add: load_history_sessions_def initial_tool_def endswith_def notify_def
        sort_by_start_time_def truncated_record_def good_record_def dump_def)

section \<open>Zooming\<close>

lemma zoom_scale_bounds:
  assumes "0.1 \<le> s" and "s \<le> 5"
  shows "0.1 \<le> zoom_scale zin s \<and> zoom_scale zin s \<le> 5"
proof (cases zin)
  case True
  have "0.1 \<le> s * 1.1" using assms(1) by simp
  then show ?thesis using True by (simp add: zoom_scale_def)
next
  case False
  have "s / 1.1 \<le> 5" using assms(2) by simp
  then show ?thesis using False by (simp add: zoom_scale_def)
qed

lemma zoom_scale_nonzero: "s \<noteq> 0 \<Longrightarrow> zoom_scale zin s \<noteq> 0"
  by (cases zin) (auto simp: zoom_scale_def min_def max_def)

lemma on_mousewheel_scale:
  "scale (fst (on_mousewheel render_ok e v)) =
     (if inside_image v e \<and> scale v \<noteq> 0 then zoom_scale (zoom_in e) (scale v) else scale v)"
  by (simp add: on_mousewheel_def inside_image_def Let_def)

lemma on_mousewheel_in_bounds:
  "scale_in_bounds v \<Longrightarrow> scale_in_bounds (fst (on_mousewheel render_ok e v))"
  using zoom_scale_bounds [of "scale v" "zoom_in e"]
  by (simp add: scale_in_bounds_def on_mousewheel_scale)

lemma wheel_trace_in_bounds:
  "scale_in_bounds v \<Longrightarrow> list_all scale_in_bounds (wheel_trace render_ok es v)"
proof (induction es arbitrary: v)
  case Nil
  then show ?case by simp
next
  case (Cons e es)
  then show ?case by (simp add: Let_def on_mousewheel_in_bounds)
qed

text \<open>
  C5, scale clamping. From a scale within \<open>[0.1, 5.0]\<close>, the scale after each of any
  sequence of wheel events is within \<open>[0.1, 5.0]\<close>. An event over the image sets the
  scale to \<open>min(scale * 1.1, 5.0)\<close> when zooming in and to \<open>max(scale / 1.1, 0.1)\<close>
  when zooming out; an event beside the image leaves it. Floats are taken as reals.
\<close>

theorem scale_clamped:
  assumes "0.1 \<le> scale v" and "scale v \<le> 5.0"
  shows "list_all (\<lambda>v'. 0.1 \<le> scale v' \<and> scale v' \<le> 5.0) (wheel_trace render_ok es v)
         \<and> (inside_image v e \<longrightarrow>
              scale (fst (on_mousewheel render_ok e v))
                = (if zoom_in e then min (scale v * 1.1) 5.0 else max (scale v / 1.1) 0.1))
         \<and> (\<not> inside_image v e \<longrightarrow> scale (fst (on_mousewheel render_ok e v)) = scale v)"
proof -
  have "scale_in_bounds v" using assms by (simp add: scale_in_bounds_def)
  then have "list_all scale_in_bounds (wheel_trace render_ok es v)"
    by (rule wheel_trace_in_bounds)
  then have "list_all (\<lambda>v'. 0.1 \<le> scale v' \<and> scale v' \<le> 5.0) (wheel_trace render_ok es v)"
    by (simp add: scale_in_bounds_def [abs_def])
  moreover have "scale v \<noteq> 0" using assms(1) by auto
  ultimately show ?thesis
    by (simp add: on_mousewheel_scale zoom_scale_def)
qed

theorem scale_clamped_witness:
  "0.1 \<le> scale demo_view \<and> scale demo_view \<le> 5.0 \<and> inside_image demo_view demo_wheel
   \<and> list_all (\<lambda>v'. 0.1 \<le> scale v' \<and> scale v' \<le> 5.0)
        (wheel_trace positive_size [demo_wheel, demo_wheel\<lparr>zoom_in := False\<rparr>] demo_view)
   \<and> scale (fst (on_mousewheel positive_size demo_wheel demo_view)) = 1.1"
proof -
  have a: "0.1 \<le> scale demo_view" "scale demo_view \<le> 5.0"
    by (simp_all add: demo_view_def)
  have b: "inside_image demo_view demo_wheel"
    by (simp add: inside_image_def demo_view_def demo_wheel_def)
  have c: "zoom_in demo_wheel" "scale demo_view = 1"
    by (simp_all add: demo_view_def demo_wheel_def)
  show ?thesis
    using a b c scale_clamped [OF a, of positive_size
        "[demo_wheel, demo_wheel\<lparr>zoom_in := False\<rparr>]" demo_wheel]
    by simp
qed

text \<open>
  Where the imaging library accepts the new size, the zoom step is carried out and the
  image-space point under the mouse is the same before and after it.
\<close>

lemma anchor_kept_when_rendered:
  assumes "0.1 \<le> scale v" and "scale v \<le> 5.0"
    and "inside_image v e"
    and "render_ok (py_int (real_of_int (original_width v) * zoom_scale (zoom_in e) (scale v)))
                   (py_int (real_of_int (original_height v) * zoom_scale (zoom_in e) (scale v)))"
  shows "snd (on_mousewheel render_ok e v) = Zoomed
         \<and> to_image_exact (fst (on_mousewheel render_ok e v)) (mouse_x e, mouse_y e)
             = to_image_exact v (mouse_x e, mouse_y e)
         \<and> to_image (fst (on_mousewheel render_ok e v)) (mouse_x e, mouse_y e)
             = to_image v (mouse_x e, mouse_y e)"
proof -
  define ns where "ns = zoom_scale (zoom_in e) (scale v)"
  have s: "scale v \<noteq> 0" using assms(1) by auto
  then have ns: "ns \<noteq> 0" unfolding ns_def by (rule zoom_scale_nonzero)
  have step: "on_mousewheel render_ok e v =
      (v\<lparr>scale := ns,
         resized_width := py_int (real_of_int (original_width v) * ns),
         resized_height := py_int (real_of_int (original_height v) * ns),
         x_pos := mouse_x e - (mouse_x e - x_pos v) / scale v * ns,
         y_pos := mouse_y e - (mouse_y e - y_pos v) / scale v * ns\<rparr>, Zoomed)"
    using assms(3,4) s by (simp add: on_mousewheel_def inside_image_def Let_def ns_def)
  have x: "(mouse_x e - (mouse_x e - (mouse_x e - x_pos v) / scale v * ns)) / ns
             = (mouse_x e - x_pos v) / scale v"
    using ns by simp
  have y: "(mouse_y e - (mouse_y e - (mouse_y e - y_pos v) / scale v * ns)) / ns
             = (mouse_y e - y_pos v) / scale v"
    using ns by simp
  show ?thesis
    unfolding step using x y by (simp add: to_image_exact_def to_image_def)
qed

text \<open>
  C4, zoom anchoring, evaluated on the code. The handler assigns the new scale before
  it resizes the image and the new position after it. For an image one pixel wide at
  scale 1 a step out asks for a width of \<open>int(1 * 10/11) = 0\<close>, which the imaging
  library refuses: the handler ends with the scale changed to \<open>10/11\<close> and the position
  unchanged, and the image-space point under the mouse moves from \<open>(0, 50)\<close> to
  \<open>(0, 55)\<close>, although the scale is within \<open>[0.1, 5.0]\<close> and the mouse is over the
  displayed image.
\<close>

theorem zoom_refused_moves_anchor:
  "0.1 \<le> scale narrow_view \<and> scale narrow_view \<le> 5.0
   \<and> inside_image narrow_view narrow_wheel
   \<and> on_mousewheel positive_size narrow_wheel narrow_view
       = (narrow_view\<lparr>scale := 10 / 11\<rparr>, Render_failed)
   \<and> to_image_exact narrow_view (959, 540) = (0, 50)
   \<and> to_image_exact (fst (on_mousewheel positive_size narrow_wheel narrow_view)) (959, 540)
       = (0, 55)
   \<and> to_image narrow_view (959, 540) = (0, 50)
   \<and> to_image (fst (on_mousewheel positive_size narrow_wheel narrow_view)) (959, 540)
       = (0, 55)"
proof -
  have ns: "zoom_scale False 1 = 10 / 11"
    by (simp add: zoom_scale_def)
  have w: "py_int (10 / 11) = 0"
    by (simp add: py_int_def)
  have step: "on_mousewheel positive_size narrow_wheel narrow_view
       = (narrow_view\<lparr>scale := 10 / 11\<rparr>, Render_failed)"
    by (simp add: on_mousewheel_def narrow_view_def narrow_wheel_def Let_def ns w
          positive_size_def)
  have before: "to_image_exact narrow_view (959, 540) = (0, 50)"
    "to_image narrow_view (959, 540) = (0, 50)"
    by (simp_all add: to_image_exact_def to_image_def py_int_def narrow_view_def)
  have after: "to_image_exact (narrow_view\<lparr>scale := 10 / 11\<rparr>) (959, 540) = (0, 55)"
    "to_image (narrow_view\<lparr>scale := 10 / 11\<rparr>) (959, 540) = (0, 55)"
    by (simp_all add: to_image_exact_def to_image_def py_int_def narrow_view_def)
  have range: "0.1 \<le> scale narrow_view" "scale narrow_view \<le> 5.0"
    "inside_image narrow_view narrow_wheel"
    by (simp_all add: narrow_view_def narrow_wheel_def inside_image_def)
  show ?thesis
    unfolding step fst_conv using range before after by (intro conjI) simp_all
qed

section \<open>Compositing\<close>

lemma segments_short: "length ps \<le> 1 \<Longrightarrow> segments ps = []"
  by (cases ps rule: segments.cases) auto

lemma set_segments: "(p, q) \<in> set (segments ps) \<Longrightarrow> p \<in> set ps \<and> q \<in> set ps"
  by (induction ps rule: segments.induct) auto

lemma adjust_points_eq: "adjust_points r pts = map (translate r) (filter (in_region r) pts)"
  by (cases r) (simp add: adjust_points_def translate_def)

lemma stroke_cmds_eq:
  "stroke_cmds (Some r) (pts, c, w)
     = map (\<lambda>(p, q). Line p q c w) (segments (map (translate r) (filter (in_region r) pts)))"
proof -
  have "length (adjust_points r pts) \<le> length pts"
    by (simp add: adjust_points_eq)
  then have "\<not> 1 < length pts \<Longrightarrow> segments (adjust_points r pts) = []"
    by (intro segments_short) simp
  moreover have "\<not> 1 < length (adjust_points r pts) \<Longrightarrow> segments (adjust_points r pts) = []"
    by (intro segments_short) simp
  ultimately show ?thesis
    by (auto simp: stroke_cmds_def Let_def adjust_points_eq)
qed

lemma translate_in_output:
  "in_region (x1, y1, x2, y2) p \<Longrightarrow> fst p \<noteq> x2 \<Longrightarrow> snd p \<noteq> y2
   \<Longrightarrow> in_output (x1, y1, x2, y2) (translate (x1, y1, x2, y2) p)"
  by (auto simp: in_region_def in_output_def translate_def)

text \<open>
  A stroke none of whose points lies on the line \<open>x = x2\<close> or \<open>y = y2\<close> is drawn
  inside the cropped output.
\<close>

lemma stroke_off_edge_in_output:
  assumes "list_all (\<lambda>p. fst p \<noteq> x2 \<and> snd p \<noteq> y2) pts"
  shows "list_all (in_output (x1, y1, x2, y2))
           (concat (map line_points (stroke_cmds (Some (x1, y1, x2, y2)) (pts, c, w))))"
  unfolding list_all_iff
proof
  fix pt
  assume "pt \<in> set (concat (map line_points (stroke_cmds (Some (x1, y1, x2, y2)) (pts, c, w))))"
  then obtain p q where pq: "(p, q) \<in> set (segments (map (translate (x1, y1, x2, y2))
        (filter (in_region (x1, y1, x2, y2)) pts)))"
    and pt: "pt = p \<or> pt = q"
    unfolding stroke_cmds_eq by (auto simp: line_points_def)
  have "pt \<in> set (map (translate (x1, y1, x2, y2)) (filter (in_region (x1, y1, x2, y2)) pts))"
    using set_segments [OF pq] pt by auto
  then obtain a where a: "a \<in> set pts" "in_region (x1, y1, x2, y2) a"
    and t: "pt = translate (x1, y1, x2, y2) a"
    by auto
  have "fst a \<noteq> x2 \<and> snd a \<noteq> y2"
    using assms a(1) by (simp add: list_all_iff)
  then show "in_output (x1, y1, x2, y2) pt"
    unfolding t using a(2) by (simp add: translate_in_output)
qed

lemma on_confirm_eq:
  assumes "original_image < length h"
  shows "on_confirm h original_image reg paths labels d
     = (if paths \<noteq> [] \<or> labels \<noteq> []
        then (h @ [case reg of None \<Rightarrow> h ! original_image | Some r \<Rightarrow> Cropped r (h ! original_image),
                   composite reg paths labels (h ! original_image)], Suc (length h), py_strip d)
        else (h @ [case reg of None \<Rightarrow> h ! original_image | Some r \<Rightarrow> Cropped r (h ! original_image)],
              length h, py_strip d))"
  using assms
  by (cases reg)
     (simp_all add: on_confirm_def alloc_def Let_def composite_def nth_append
        list_update_append)

lemma composite_nothing: "composite None [] [] base = base"
  by (simp add: composite_def draw_commands_def)

lemma on_confirm_result:
  assumes "original_image < length h"
    and "on_confirm h original_image reg paths labels d = (h', out, d')"
  shows "length h \<le> out \<and> out < length h' \<and> take (length h) h' = h
         \<and> h' ! out = composite reg paths labels (h ! original_image)"
proof (cases "paths \<noteq> [] \<or> labels \<noteq> []")
  case True
  then show ?thesis
    using assms(2) unfolding on_confirm_eq [OF assms(1)] by (auto simp: nth_append)
next
  case False
  then have "composite reg paths labels (h ! original_image)
      = (case reg of None \<Rightarrow> h ! original_image | Some r \<Rightarrow> Cropped r (h ! original_image))"
    by (simp add: composite_def draw_commands_def)
  with False show ?thesis
    using assms(2) unfolding on_confirm_eq [OF assms(1)] by (auto simp: nth_append)
qed

text \<open>
  C6, stroke clipping under crop, evaluated on the code. The test that keeps a point is
  \<open>x1 \<le> px \<le> x2\<close> and \<open>y1 \<le> py \<le> y2\<close>, so a point on the line \<open>x = x2\<close> or
  \<open>y = y2\<close>, one past the last column or row of the crop, is kept. With the region
  \<open>(10, 10, 20, 20)\<close>, whose output is ten pixels wide, a stroke along \<open>x = 20\<close> is
  drawn as a line along \<open>x = 10\<close>: both of its end points lie outside the columns
  \<open>0\<close> to \<open>9\<close> of the cropped output.
\<close>

theorem edge_stroke_drawn_outside_output:
  "stroke_cmds (Some demo_region) edge_stroke = [Line (10, 0) (10, 2) ''red'' 2]
   \<and> in_output demo_region (10, 0) = False
   \<and> in_output demo_region (10, 2) = False
   \<and> on_confirm [Pixels (0::nat)] 0 (Some demo_region) [edge_stroke] [] []
       = ([Pixels 0, Cropped demo_region (Pixels 0),
           Drawn (Cropped demo_region (Pixels 0)) (Line (10, 0) (10, 2) ''red'' 2)], 2, [])"
proof -
  have cmds: "stroke_cmds (Some demo_region) edge_stroke = [Line (10, 0) (10, 2) ''red'' 2]"
    by (simp add: stroke_cmds_def adjust_points_def in_region_def demo_region_def
          edge_stroke_def Let_def)
  have out: "in_output demo_region (10, 0) = False" "in_output demo_region (10, 2) = False"
    by (simp_all add: in_output_def demo_region_def)
  have "draw_commands (Some demo_region) [edge_stroke] [] = [Line (10, 0) (10, 2) ''red'' 2]"
    by (simp add: draw_commands_def cmds)
  then have conf: "on_confirm [Pixels (0::nat)] 0 (Some demo_region) [edge_stroke] [] []
       = ([Pixels 0, Cropped demo_region (Pixels 0),
           Drawn (Cropped demo_region (Pixels 0)) (Line (10, 0) (10, 2) ''red'' 2)], 2, [])"
    by (simp add: on_confirm_def alloc_def py_strip_def edge_stroke_def Let_def)
  show ?thesis
    using cmds out conf by (intro conjI)
qed

theorem edge_stroke_drawn_outside_output_witness:
  "[edge_stroke] \<noteq> []
   \<and> fst (snd (on_confirm [Pixels (0::nat)] 0 (Some demo_region) [edge_stroke] [] [])) = 2
   \<and> set (stroke_cmds (Some demo_region) edge_stroke) = {Line (10, 0) (10, 2) ''red'' 2}"
proof -
  note th = edge_stroke_drawn_outside_output
  have a: "fst (snd (on_confirm [Pixels (0::nat)] 0 (Some demo_region) [edge_stroke] [] [])) = 2"
    unfolding th [THEN conjunct2, THEN conjunct2, THEN conjunct2] by simp
  have b: "set (stroke_cmds (Some demo_region) edge_stroke) = {Line (10, 0) (10, 2) ''red'' 2}"
    unfolding th [THEN conjunct1] by simp
  show ?thesis
    using a b by simp
qed

text \<open>
  C8, compositing identity and freshness. The image \<open>on_confirm\<close> returns is a new
  object: its address differs from the base image's and was not in use before, and every
  object that existed before, the base image among them, is unchanged. Without a crop
  region, strokes and labels its content equals the base image's. A stored capture file
  changes only on the re-edit path when the user confirms and the save succeeds, and
  then the file of that capture holds the composited result; in every other outcome of
  \<open>preview_screenshot\<close> the image files are as before.
\<close>

theorem compositing_fresh:
  assumes "original_image < length h"
    and "on_confirm h original_image reg paths labels d = (h', out, d')"
    and "preview_screenshot cid input open_ok save_ok s t = ((s', t'), n)"
  shows "out \<noteq> original_image \<and> length h \<le> out \<and> out < length h'
         \<and> take (length h) h' = h
         \<and> h' ! original_image = h ! original_image
         \<and> (reg = None \<and> paths = [] \<and> labels = [] \<longrightarrow> h' ! out = h ! original_image)
         \<and> (n \<noteq> Annotation_saved \<longrightarrow> image_files t' = image_files t)
         \<and> (n = Annotation_saved \<longrightarrow>
               (\<exists>target img reg' paths' labels' d'.
                  input = Confirm reg' paths' labels' d'
                  \<and> lookup_capture cid (captures s) = Some target
                  \<and> image_files t (image_path target) = Some img
                  \<and> image_files t'
                      = (image_files t)(image_path target \<mapsto> composite reg' paths' labels' img)))"
proof -
  note r = on_confirm_result [OF assms(1,2)]
  have "h' ! original_image = take (length h) h' ! original_image"
    using assms(1) by simp
  then have keep: "h' ! original_image = h ! original_image"
    using r by simp
  have ident: "reg = None \<and> paths = [] \<and> labels = [] \<longrightarrow> h' ! out = h ! original_image"
    using r by (auto simp: composite_nothing)
  have files: "(n \<noteq> Annotation_saved \<longrightarrow> image_files t' = image_files t)
         \<and> (n = Annotation_saved \<longrightarrow>
               (\<exists>target img reg' paths' labels' d'.
                  input = Confirm reg' paths' labels' d'
                  \<and> lookup_capture cid (captures s) = Some target
                  \<and> image_files t (image_path target) = Some img
                  \<and> image_files t'
                      = (image_files t)(image_path target \<mapsto> composite reg' paths' labels' img)))"
  proof (cases "lookup_capture cid (captures s)")
    case None
    then show ?thesis using assms(3) by (auto simp: preview_screenshot_def)
  next
    case (Some target)
    show ?thesis
    proof (cases "image_files t (image_path target)")
      case None
      then show ?thesis using assms(3) Some by (auto simp: preview_screenshot_def)
    next
      case (Some img)
      note img = this
      show ?thesis
      proof (cases input)
        case Cancel
        then show ?thesis
          using assms(3) \<open>lookup_capture cid (captures s) = Some target\<close> img
          by (auto simp: preview_screenshot_def alloc_def split: if_splits)
      next
        case (Confirm reg' paths' labels' dv)
        obtain h2 out2 d2 where oc: "on_confirm [img, img] 1 reg' paths' labels' dv = (h2, out2, d2)"
          by (cases "on_confirm [img, img] 1 reg' paths' labels' dv")
        have "h2 ! out2 = composite reg' paths' labels' ([img, img] ! 1)"
          using on_confirm_result [OF _ oc] by simp
        then have out2: "h2 ! out2 = composite reg' paths' labels' img" by simp
        show ?thesis
          using assms(3) \<open>lookup_capture cid (captures s) = Some target\<close> img Confirm oc out2
          by (auto simp: preview_screenshot_def alloc_def save_session_def notify_def Let_def
                split: if_splits)
      qed
    qed
  qed
  show ?thesis using r keep ident files assms(1) by auto
qed


theorem compositing_fresh_witness:
  "(0::nat) < length [Pixels (7::nat)]
   \<and> on_confirm [Pixels (7::nat)] 0 None [] [] '' note '' = ([Pixels 7, Pixels 7], 1, ''note'')
   \<and> preview_screenshot 1 (Confirm (Some demo_region) [demo_stroke] [] ''first'') True True
         one_capture_session locked_tool
       = ((one_capture_session,
           save_session one_capture_session
             (locked_tool\<lparr>image_files :=
                (image_files locked_tool)(''shots/a.png'' \<mapsto>
                   composite (Some demo_region) [demo_stroke] [] (Pixels 0))\<rparr>)),
          Annotation_saved)
   \<and> [Pixels (7::nat), Pixels 7] ! 1 = [Pixels 7] ! 0
   \<and> (1::nat) \<noteq> 0"
proof -
  have a: "(0::nat) < length [Pixels (7::nat)]" by simp
  have b: "on_confirm [Pixels (7::nat)] 0 None [] [] '' note ''
             = ([Pixels 7, Pixels 7], 1, ''note'')"
    by (simp add: on_confirm_def alloc_def py_strip_def py_space_def Let_def)
  have c: "preview_screenshot 1 (Confirm (Some demo_region) [demo_stroke] [] ''first'') True True
         one_capture_session locked_tool
       = ((one_capture_session,
           save_session one_capture_session
             (locked_tool\<lparr>image_files :=
                (image_files locked_tool)(''shots/a.png'' \<mapsto>
                   composite (Some demo_region) [demo_stroke] [] (Pixels 0))\<rparr>)),
          Annotation_saved)"
    by (simp add: preview_screenshot_def one_capture_session_def append_capture_def
          init_empty_session_def locked_tool_def initial_tool_def alloc_def on_confirm_def
          composite_def py_strip_def py_space_def demo_stroke_def Let_def)
  show ?thesis
    using a b c compositing_fresh [OF a b c] by simp
qed

section \<open>The hotkey dialog\<close>

lemma check_parts_iff: "check_parts ps = list_all (\<lambda>p. \<not> part_invalid p) ps"
  by (induction ps) auto

lemma function_keys_shaped: "q \<in> set function_keys \<Longrightarrow> fkey_shaped q"
  by (auto simp: function_keys_def fkey_shaped_def isdigit_def is_digit_def)


lemma part_invalid_iff:
  assumes "fkey_shaped (py_strip raw) \<longrightarrow> py_strip raw \<in> set function_keys"
  shows "\<not> part_invalid raw \<longleftrightarrow> accepted_part (py_strip raw)"
proof -
  define q where "q = py_strip raw"
  have f: "fkey_shaped q \<longleftrightarrow> q \<in> set function_keys"
    using assms function_keys_shaped [of q] unfolding q_def by blast
  have "part_invalid raw \<longleftrightarrow>
      (q \<noteq> [] \<and> q \<notin> valid_modifiers \<and> \<not> (isalpha q \<and> length q = 1)
       \<and> \<not> (isdigit q \<and> length q = 1) \<and> \<not> fkey_shaped q)"
    by (simp add: part_invalid_def Let_def q_def fkey_shaped_def)
  then show ?thesis
    unfolding q_def [symmetric] accepted_part_def base_key_def using f by blast
qed

lemma demo_hotkey_normalised: "py_lower (py_strip '' Ctrl + Alt+s'') = ''ctrl + alt+s''"
  by (simp add: py_lower_def py_strip_def py_space_def)

lemma demo_hotkey_parts: "hotkey_parts '' Ctrl + Alt+s'' = [''ctrl'', ''alt'', ''s'']"
  unfolding hotkey_parts_def demo_hotkey_normalised by (simp add: py_strip_def py_space_def)

lemma demo_ascii: "is_ascii '' Ctrl + Alt+s''"
  by (simp add: is_ascii_def)


lemma demo_no_odd_keys:
  "list_all (\<lambda>q. fkey_shaped q \<longrightarrow> q \<in> set function_keys) (hotkey_parts '' Ctrl + Alt+s'')"
  unfolding demo_hotkey_parts by (simp add: fkey_shaped_def)

lemma demo_parts_accepted: "list_all accepted_part (hotkey_parts '' Ctrl + Alt+s'')"
  unfolding demo_hotkey_parts
  by (simp add: accepted_part_def valid_modifiers_def base_key_def isalpha_def is_letter_def)

lemma spec_rejects_ctrl: "\<not> spec_valid_hotkey ''ctrl''"
  by (simp add: spec_valid_hotkey_def base_key_def function_keys_def
        isalpha_def isdigit_def is_letter_def is_digit_def)

lemma code_accepts_ctrl: "confirm_hotkey ''ctrl'' = Inr ''ctrl''"
  by (simp add: confirm_hotkey_def py_lower_def py_strip_def py_space_def part_invalid_def
        valid_modifiers_def)


lemma two_keys_parts: "split_on CHR ''+'' ''a+b'' = [''a'', ''b'']"
  by simp

lemma single_letters: "base_key ''a'' \<and> base_key ''b''"
  by (simp add: base_key_def isalpha_def is_letter_def)

lemma spec_rejects_two_keys: "\<not> spec_valid_hotkey ''a+b''"
  unfolding spec_valid_hotkey_def two_keys_parts using single_letters by simp

lemma two_keys_normalised: "py_lower (py_strip ''a+b'') = ''a+b''"
  by (simp add: py_lower_def py_strip_def py_space_def)

lemma two_keys_checked: "check_parts [''a'', ''b'']"
  by (simp add: part_invalid_def py_strip_def py_space_def isalpha_def is_letter_def)

lemma code_accepts_two_keys: "confirm_hotkey ''a+b'' = Inr ''a+b''"
  unfolding confirm_hotkey_def Let_def two_keys_normalised two_keys_parts
  using two_keys_checked by simp

text \<open>
  C9, hotkey validation, as the code has it. The candidate is trimmed and lower-cased.
  For ASCII candidates none of whose parts is an \<open>f\<close> followed by digits other than
  \<open>f1\<close> to \<open>f12\<close>, the dialog accepts the candidate exactly when it is not empty and
  every \<open>+\<close>-separated part, trimmed, is empty, a modifier name from
  \<open>{ctrl, alt, shift}\<close>, a single letter, a single digit or a function key \<open>f1\<close> to
  \<open>f12\<close>; the hotkey stored is the trimmed, lower-cased candidate. The number of base
  keys is not checked.
\<close>

theorem hotkey_validation:
  assumes "is_ascii s"
    and "list_all (\<lambda>q. fkey_shaped q \<longrightarrow> q \<in> set function_keys) (hotkey_parts s)"
  shows "(confirm_hotkey s = Inr (py_lower (py_strip s))
            \<longleftrightarrow> py_lower (py_strip s) \<noteq> [] \<and> list_all accepted_part (hotkey_parts s))
         \<and> (\<forall>k. confirm_hotkey s = Inr k \<longrightarrow> k = py_lower (py_strip s))"
proof -
  define ps where "ps = split_on CHR ''+'' (py_lower (py_strip s))"
  have "\<forall>raw \<in> set ps. fkey_shaped (py_strip raw) \<longrightarrow> py_strip raw \<in> set function_keys"
    using assms(2) unfolding hotkey_parts_def ps_def list_all_iff by simp
  then have "\<forall>raw \<in> set ps. (\<not> part_invalid raw) = accepted_part (py_strip raw)"
    using part_invalid_iff by blast
  then have "list_all (\<lambda>p. \<not> part_invalid p) ps = list_all accepted_part (map py_strip ps)"
    unfolding list_all_iff by simp
  then have c: "check_parts ps = list_all accepted_part (hotkey_parts s)"
    by (simp add: check_parts_iff hotkey_parts_def ps_def)
  have d: "confirm_hotkey s =
      (if py_lower (py_strip s) = [] then Inl Hotkey_empty
       else if check_parts ps then Inr (py_lower (py_strip s)) else Inl Hotkey_invalid_format)"
    by (simp add: confirm_hotkey_def Let_def ps_def)
  show ?thesis unfolding d c by simp
qed

theorem hotkey_validation_witness:
  "is_ascii '' Ctrl + Alt+s''
   \<and> list_all (\<lambda>q. fkey_shaped q \<longrightarrow> q \<in> set function_keys) (hotkey_parts '' Ctrl + Alt+s'')
   \<and> list_all accepted_part (hotkey_parts '' Ctrl + Alt+s'')
   \<and> confirm_hotkey '' Ctrl + Alt+s'' = Inr ''ctrl + alt+s''"
proof -
  have ne: "py_lower (py_strip '' Ctrl + Alt+s'') \<noteq> []"
    unfolding demo_hotkey_normalised by simp
  have "confirm_hotkey '' Ctrl + Alt+s'' = Inr (py_lower (py_strip '' Ctrl + Alt+s''))"
    by (rule hotkey_validation [OF demo_ascii demo_no_odd_keys, THEN conjunct1, THEN iffD2])
       (rule conjI [OF ne demo_parts_accepted])
  then have "confirm_hotkey '' Ctrl + Alt+s'' = Inr ''ctrl + alt+s''"
    by (simp only: demo_hotkey_normalised)
  then show ?thesis
    using demo_ascii demo_no_odd_keys demo_parts_accepted by (intro conjI)
qed

text \<open>
  C9 as the specification states it fails: a modifier alone, with no base key,
  is accepted, and so are two base keys.
\<close>

theorem hotkey_validation_counterexample:
  "confirm_hotkey ''ctrl'' = Inr ''ctrl'' \<and> \<not> spec_valid_hotkey ''ctrl''
   \<and> confirm_hotkey ''a+b'' = Inr ''a+b'' \<and> \<not> spec_valid_hotkey ''a+b''"
  using code_accepts_ctrl spec_rejects_ctrl code_accepts_two_keys spec_rejects_two_keys
  by (intro conjI)

end
